theory Spec2Isabelle
  imports Complex_Main "HOL-Library.Log_Nat" "HOL-Library.Multiset"
begin

section \<open>Python floats\<close>

text \<open>
  A finite binary64 value is modelled by the rational number it denotes. Every float
  operation of the source is the exact operation on rationals followed by
  \<open>round_double\<close>, rounding to nearest with ties to even on a 53 bit significand
  (gradual underflow below \<open>2 powi (- 1022)\<close> included). Infinities, NaN and the sign of
  zero are not represented: the scores of the expert are negated DTW costs, which are
  finite.
\<close>

definition rne :: "rat \<Rightarrow> int" where
  \<comment> \<open>round to the nearest integer, a tie goes to the even neighbour\<close>
  "rne x = (let f = \<lfloor>x\<rfloor>; r = x - of_int f in
     if r < 1 / 2 then f else if 1 / 2 < r then f + 1 else if even f then f else f + 1)"

definition ilog2 :: "rat \<Rightarrow> int" where
  \<comment> \<open>the binary exponent \<open>\<lfloor>log\<^sub>2 x\<rfloor>\<close> of a positive rational\<close>
  "ilog2 x = (let (a, b) = quotient_of x; t = bitlen a - bitlen b in
     if 2 powi t \<le> x then t else t - 1)"

definition round_double :: "rat \<Rightarrow> rat" where
  "round_double x = (if x = 0 then 0 else
     let e = max (ilog2 \<bar>x\<bar> - 52) (- 1074) in of_int (rne (x / 2 powi e)) * 2 powi e)"

definition is_double :: "rat \<Rightarrow> bool" where
  "is_double x = (round_double x = x \<and> \<bar>x\<bar> < 2 ^ 1024)"

definition dmul :: "rat \<Rightarrow> rat \<Rightarrow> rat" where
  \<comment> \<open>\<^verbatim>\<open>x * y\<close> on floats\<close>
  "dmul x y = round_double (x * y)"

definition dsub :: "rat \<Rightarrow> rat \<Rightarrow> rat" where
  \<comment> \<open>\<^verbatim>\<open>x - y\<close> on floats\<close>
  "dsub x y = round_double (x - y)"

definition float_of_nat :: "nat \<Rightarrow> rat" where
  \<comment> \<open>the conversion of an \<^verbatim>\<open>int\<close> operand that meets a float operand\<close>
  "float_of_nat n = round_double (of_nat n)"

definition py_int :: "rat \<Rightarrow> int" where
  \<comment> \<open>\<^verbatim>\<open>int(x)\<close> truncates towards zero\<close>
  "py_int x = (if 0 \<le> x then \<lfloor>x\<rfloor> else \<lceil>x\<rceil>)"

definition d099 :: rat where
  \<comment> \<open>the literal \<^verbatim>\<open>0.99\<close>\<close>
  "d099 = round_double (99 / 100)"

definition fmt_4f :: "rat \<Rightarrow> rat" where
  \<comment> \<open>\<^verbatim>\<open>f"{x:.4f}"\<close>: the correctly rounded decimal with four fractional digits, given
      as the number that the digit string denotes\<close>
  "fmt_4f x = of_int (rne (x * 10000)) / 10000"

section \<open>Python lists and strings\<close>

datatype py_error = IndexError | ValueError

definition py_getitem :: "'a list \<Rightarrow> int \<Rightarrow> py_error + 'a" where
  \<comment> \<open>\<^verbatim>\<open>xs[i]\<close>: an index below zero counts from the end, anything outside raises\<close>
  "py_getitem xs i =
     (if 0 \<le> i \<and> i < int (length xs) then Inr (xs ! nat i)
      else if i < 0 \<and> - int (length xs) \<le> i then Inr (xs ! nat (int (length xs) + i))
      else Inl IndexError)"

fun str_replace :: "string \<Rightarrow> string \<Rightarrow> string \<Rightarrow> string" where
  \<comment> \<open>\<^verbatim>\<open>s.replace(old, new)\<close>: every occurrence of \<open>old\<close>, scanning from the left without
      overlap\<close>
  "str_replace [] new s = new @ concat (map (\<lambda>c. c # new) s)"
| "str_replace (p # ps) new [] = []"
| "str_replace (p # ps) new (c # cs) =
     (if take (Suc (length ps)) (c # cs) = p # ps
      then new @ str_replace (p # ps) new (drop (length ps) cs)
      else c # str_replace (p # ps) new cs)"

fun occurs :: "string \<Rightarrow> string \<Rightarrow> bool" where
  \<comment> \<open>\<^verbatim>\<open>pat in s\<close>\<close>
  "occurs pat [] = (pat = [])"
| "occurs pat (c # cs) = (take (length pat) (c # cs) = pat \<or> occurs pat cs)"

section \<open>The QUESST14 downstream expert\<close>

text \<open>
  \<^verbatim>\<open>records\<close> is the dictionary that \<^verbatim>\<open>forward\<close> fills: one feature matrix and one
  audio name per utterance, queries first. The type \<open>'f\<close> of a feature matrix is left
  open, and \<^verbatim>\<open>segmental_dtw\<close>, whose Cython source is not part of the module, is a
  parameter returning the cost as a float.
\<close>

record 'f records =
  features :: "'f list"
  audio_names :: "string list"

type_synonym match_result = "string \<times> string \<times> rat"

type_synonym 'f future = "'f \<times> 'f \<times> string \<times> string"
  \<comment> \<open>the arguments of one \<^verbatim>\<open>executor.submit(match, query, doc, query_name, doc_name)\<close>\<close>

definition match :: "('f \<Rightarrow> 'f \<Rightarrow> rat) \<Rightarrow> 'f \<Rightarrow> 'f \<Rightarrow> string \<Rightarrow> string \<Rightarrow> match_result" where
  "match segmental_dtw query doc query_name doc_name =
     (let cost = segmental_dtw query doc in (query_name, doc_name, dmul (- 1) cost))"

definition future_result :: "('f \<Rightarrow> 'f \<Rightarrow> rat) \<Rightarrow> 'f future \<Rightarrow> match_result" where
  "future_result segmental_dtw fut =
     (case fut of (query, doc, query_name, doc_name) \<Rightarrow>
        match segmental_dtw query doc query_name doc_name)"

definition submit_docs ::
  "'f \<Rightarrow> string \<Rightarrow> ('f \<times> string) list \<Rightarrow> 'f future list \<Rightarrow> 'f future list" where
  \<comment> \<open>the inner loop over \<^verbatim>\<open>zip(docs, doc_names)\<close>\<close>
  "submit_docs query query_name docs futures =
     fold (\<lambda>(doc, doc_name) futures.
             futures @ [(query, doc, query_name, str_replace ''.wav'' '''' doc_name)])
       docs futures"

definition submit_all :: "('f \<times> string) list \<Rightarrow> ('f \<times> string) list \<Rightarrow> 'f future list" where
  \<comment> \<open>the outer loop over \<^verbatim>\<open>zip(queries, query_names)\<close>\<close>
  "submit_all queries docs =
     fold (\<lambda>(query, query_name) futures.
             submit_docs query (str_replace ''.wav'' '''' query_name) docs futures)
       queries []"

text \<open>
  \<^verbatim>\<open>as_completed(futures)\<close> yields every future once, in the order in which the worker
  processes finish. That order is the environment's choice: it is the parameter
  \<open>order\<close>, the positions of the futures in the sequence of their completion.
\<close>

definition completion_order :: "nat \<Rightarrow> nat list \<Rightarrow> bool" where
  "completion_order n order = (sort order = [0..<n])"

definition as_completed :: "'a list \<Rightarrow> nat list \<Rightarrow> 'a list" where
  "as_completed futures order = map (\<lambda>i. futures ! i) order"

definition completed_results ::
  "('f \<Rightarrow> 'f \<Rightarrow> rat) \<Rightarrow> 'f future list \<Rightarrow> nat list \<Rightarrow> match_result list" where
  \<comment> \<open>the values of \<^verbatim>\<open>future.result()\<close> in the order of the collecting loop\<close>
  "completed_results segmental_dtw futures order =
     map (future_result segmental_dtw) (as_completed futures order)"

definition match_results ::
  "('f \<Rightarrow> 'f \<Rightarrow> rat) \<Rightarrow> int \<Rightarrow> ('f \<times> string) list \<Rightarrow> ('f \<times> string) list \<Rightarrow> nat list
     \<Rightarrow> py_error + match_result list" where
  \<comment> \<open>the block under \<^verbatim>\<open>with ProcessPoolExecutor(num_workers)\<close>; the constructor refuses
      a pool without workers\<close>
  "match_results segmental_dtw num_workers queries docs order =
     (if num_workers \<le> 0 then Inl ValueError
      else Inr (completed_results segmental_dtw (submit_all queries docs) order))"

fun dict_append :: "('k \<times> 'v list) list \<Rightarrow> 'k \<Rightarrow> 'v \<Rightarrow> ('k \<times> 'v list) list" where
  \<comment> \<open>\<^verbatim>\<open>results[k].append(v)\<close> on a \<^verbatim>\<open>defaultdict(list)\<close>; the keys stay in the order of
      their first insertion\<close>
  "dict_append [] k v = [(k, [v])]"
| "dict_append ((k', vs) # kvs) k v =
     (if k' = k then (k', vs @ [v]) # kvs else (k', vs) # dict_append kvs k v)"

definition dict_get :: "('k \<times> 'v list) list \<Rightarrow> 'k \<Rightarrow> 'v list" where
  \<comment> \<open>the list stored under a key, empty for a key that was never inserted\<close>
  "dict_get results k = (case map_of results k of None \<Rightarrow> [] | Some vs \<Rightarrow> vs)"

definition collect ::
  "match_result list \<Rightarrow> (string \<times> (string \<times> rat) list) list \<times> rat list" where
  "collect completed =
     fold (\<lambda>(query_name, doc_name, score) (results, scores).
             (dict_append results query_name (doc_name, score), scores @ [score]))
       completed ([], [])"

definition threshold :: "rat list \<Rightarrow> py_error + (rat \<times> rat)" where
  \<comment> \<open>the score threshold and the minimal score\<close>
  "threshold scores0 =
     (let scores = sort scores0 in
      case py_getitem scores (py_int (dmul d099 (float_of_nat (length scores)))) of
        Inl e \<Rightarrow> Inl e
      | Inr score_thresh \<Rightarrow>
          (case py_getitem scores 0 of
             Inl e \<Rightarrow> Inl e
           | Inr score_min \<Rightarrow> Inr (score_thresh, score_min)))"

text \<open>
  The report is the tree under the root \<^verbatim>\<open>stdlist\<close>, whose attributes are constants: one
  \<^verbatim>\<open>detected_termlist\<close> per key of \<^verbatim>\<open>results\<close>, one \<^verbatim>\<open>term\<close> per entry of its list.
  The names are taken to be strings that lxml accepts as attribute values; for a name
  with a NUL or a control character \<^verbatim>\<open>etree.SubElement\<close> raises and no report is written,
  which the model leaves out.
\<close>

datatype decision = YES | NO

record term_element =
  term_file :: string
  term_channel :: string
  term_tbeg :: string
  term_dur :: string
  term_score :: rat
  term_decision :: decision

record detected_termlist =
  termid :: string
  term_search_time :: string
  oov_term_count :: string
  terms :: "term_element list"

definition make_term :: "rat \<Rightarrow> rat \<Rightarrow> string \<times> rat \<Rightarrow> term_element" where
  "make_term score_thresh score_min entry =
     (case entry of (doc_name, score) \<Rightarrow>
        \<lparr>term_file = doc_name, term_channel = ''1'', term_tbeg = ''0.000'', term_dur = ''0.00'',
         term_score = fmt_4f (dsub score score_min),
         term_decision = (if score > score_thresh then YES else NO)\<rparr>)"

definition build_tree ::
  "(string \<times> (string \<times> rat) list) list \<Rightarrow> rat \<Rightarrow> rat \<Rightarrow> detected_termlist list" where
  "build_tree results score_thresh score_min =
     map (\<lambda>(query_name, doc_scores).
            \<lparr>termid = query_name, term_search_time = ''1.0'', oov_term_count = ''1'',
             terms = map (make_term score_thresh score_min) doc_scores\<rparr>)
       results"

definition log_records ::
  "('f \<Rightarrow> 'f \<Rightarrow> rat) \<Rightarrow> int \<Rightarrow> nat \<Rightarrow> 'f records \<Rightarrow> nat list
     \<Rightarrow> py_error + detected_termlist list" where
  "log_records segmental_dtw num_workers n_queries records order =
     (let queries = take n_queries (features records);
          docs = drop n_queries (features records);
          query_names = take n_queries (audio_names records);
          doc_names = drop n_queries (audio_names records)
      in case match_results segmental_dtw num_workers
                (zip queries query_names) (zip docs doc_names) order of
           Inl e \<Rightarrow> Inl e
         | Inr completed \<Rightarrow>
             (case collect completed of (results, scores) \<Rightarrow>
                (case threshold scores of
                   Inl e \<Rightarrow> Inl e
                 | Inr (score_thresh, score_min) \<Rightarrow>
                     Inr (build_tree results score_thresh score_min))))"

section \<open>The file attribute in the words of the specification\<close>

definition spec_strip_suffix :: "string \<Rightarrow> string" where
  \<comment> \<open>the name without a trailing \<^verbatim>\<open>.wav\<close>, every other character kept; this follows the
      wording of the specification and is compared with \<open>str_replace\<close> below\<close>
  "spec_strip_suffix name =
     (if 4 \<le> length name \<and> drop (length name - 4) name = ''.wav''
      then take (length name - 4) name else name)"

section \<open>Rounding\<close>

lemma rne_bounds: "\<bar>of_int (rne x) - x\<bar> \<le> 1 / 2"
proof -
  have 1: "of_int \<lfloor>x\<rfloor> \<le> x" "x < of_int \<lfloor>x\<rfloor> + 1" by linarith+
  show ?thesis
    unfolding rne_def Let_def using 1 by (auto simp: abs_le_iff)
qed

lemma rne_near:
  assumes "\<bar>x - of_int j\<bar> < 1 / 2"
  shows "rne x = j"
proof -
  have "\<bar>of_int (rne x) - x\<bar> \<le> 1 / 2" by (rule rne_bounds)
  with assms have "\<bar>(of_int (rne x) :: rat) - of_int j\<bar> < 1" by linarith
  then have "\<bar>(of_int (rne x - j) :: rat)\<bar> < 1" by simp
  then have "\<bar>rne x - j\<bar> < 1"
    by (simp only: flip: of_int_abs of_int_less_1_iff[where ?'a = rat])
  then show ?thesis by linarith
qed

lemma rne_of_int: "rne (of_int n) = n"
  by (rule rne_near) simp

lemma rne_minus: "rne (- x) = - rne x"
proof (cases "x = of_int \<lfloor>x\<rfloor>")
  case True
  then have "- x = of_int (- \<lfloor>x\<rfloor>)" by simp
  then have "rne (- x) = - \<lfloor>x\<rfloor>" using rne_of_int by metis
  moreover have "rne x = \<lfloor>x\<rfloor>" using True rne_of_int by metis
  ultimately show ?thesis by simp
next
  case False
  have fr: "of_int \<lfloor>x\<rfloor> < x" "x < of_int \<lfloor>x\<rfloor> + 1"
    using False by (linarith, linarith)
  have f: "\<lfloor>- x\<rfloor> = - \<lfloor>x\<rfloor> - 1"
    by (rule floor_unique) (use fr in auto)
  show ?thesis
    unfolding rne_def Let_def f using fr by auto
qed

lemma bitlen_rat_bounds:
  assumes "0 < a"
  shows "(2::rat) powi (bitlen a - 1) \<le> of_int a" and "(of_int a :: rat) < 2 powi bitlen a"
proof -
  have b: "2 ^ nat (bitlen a - 1) \<le> a" "a < 2 ^ nat (bitlen a)"
    using bitlen_bounds[OF assms] by auto
  have ge: "1 \<le> bitlen a"
    using assms bitlen_eq_zero_iff[of a] bitlen_nonneg[of a] by linarith
  have "(2::rat) powi (bitlen a - 1) = of_int (2 ^ nat (bitlen a - 1))"
    using ge by (simp add: power_int_def)
  also have "\<dots> \<le> of_int a" using b(1) by (simp only: of_int_le_iff)
  finally show "(2::rat) powi (bitlen a - 1) \<le> of_int a" .
  have "(of_int a :: rat) < of_int (2 ^ nat (bitlen a))"
    using b(2) by (simp only: of_int_less_iff)
  also have "\<dots> = 2 powi bitlen a" using ge by (simp add: power_int_def)
  finally show "(of_int a :: rat) < 2 powi bitlen a" .
qed

lemma ilog2_bounds:
  assumes "0 < x"
  shows "2 powi ilog2 x \<le> x" and "x < 2 powi (ilog2 x + 1)"
proof -
  obtain a b where q: "quotient_of x = (a, b)" by (cases "quotient_of x")
  then have b: "0 < b" and x: "x = of_int a / of_int b"
    using quotient_of_denom_pos quotient_of_div by auto
  with assms have a: "0 < a"
    by (simp add: zero_less_divide_iff)
  define t where "t = bitlen a - bitlen b"
  note A = bitlen_rat_bounds[OF a] and B = bitlen_rat_bounds[OF b]
  have pb: "(0::rat) < of_int b" using b by simp
  have "2 powi (t - 1) * (of_int b :: rat) < 2 powi (t - 1) * 2 powi bitlen b"
    using B(2) by (simp add: mult_strict_left_mono)
  also have "\<dots> = 2 powi (bitlen a - 1)"
    by (simp add: t_def flip: power_int_add)
  also have "\<dots> \<le> of_int a" by (rule A(1))
  finally have lo: "2 powi (t - 1) < x" using pb by (simp add: x pos_less_divide_eq)
  have "(of_int a :: rat) < 2 powi bitlen a" by (rule A(2))
  also have "\<dots> = 2 powi (t + 1) * 2 powi (bitlen b - 1)"
    by (simp add: t_def flip: power_int_add)
  also have "\<dots> \<le> 2 powi (t + 1) * of_int b"
    using B(1) by (simp add: mult_left_mono)
  finally have hi: "x < 2 powi (t + 1)" using pb by (simp add: x pos_divide_less_eq)
  have il: "ilog2 x = (if 2 powi t \<le> x then t else t - 1)"
    by (simp add: ilog2_def q t_def)
  show "2 powi ilog2 x \<le> x" using lo by (simp add: il)
  show "x < 2 powi (ilog2 x + 1)" using hi by (auto simp add: il)
qed

lemma powi2_less_imp:
  assumes "(2::rat) powi a < 2 powi b"
  shows "a < b"
proof (rule ccontr)
  assume "\<not> a < b"
  then have "b \<le> a" by simp
  then have "(2::rat) powi b \<le> 2 powi a" by (rule power_int_increasing) simp
  with assms show False by simp
qed

lemma round_double_pos:
  assumes "0 < x" and "- 1022 \<le> ilog2 x"
  shows "round_double x = of_int (rne (x / 2 powi (ilog2 x - 52))) * 2 powi (ilog2 x - 52)"
proof -
  have m: "max (ilog2 x - 52) (- 1074) = ilog2 x - 52" using assms(2) by linarith
  have a: "\<bar>x\<bar> = x" "x \<noteq> 0" using assms(1) by simp_all
  show ?thesis unfolding round_double_def Let_def a m by (simp only: a if_False)
qed

lemma round_double_minus: "round_double (- x) = - round_double x"
  by (simp add: round_double_def Let_def rne_minus)

lemma round_double_0: "round_double 0 = 0"
  by (simp add: round_double_def)

lemma d099_val: "d099 = 8917127262193582 / 2 ^ 53"
  by code_simp

lemma round_double_rel:
  assumes "2 powi (- 1022) \<le> x"
  shows "\<bar>round_double x - x\<bar> \<le> x / 2 ^ 53"
proof -
  have xpos: "0 < x"
    using assms zero_less_power_int[of "2::rat" "- 1022"] by linarith
  define L where "L = ilog2 x"
  define s :: rat where "s = 2 powi (L - 52)"
  have Lb: "2 powi L \<le> x" "x < 2 powi (L + 1)"
    unfolding L_def using ilog2_bounds[OF xpos] by auto
  have "(2::rat) powi (- 1022) < 2 powi (L + 1)" using assms Lb(2) by linarith
  then have Lm: "- 1022 < L + 1" by (rule powi2_less_imp)
  have spos: "0 < s" by (simp add: s_def)
  have Re: "round_double x = of_int (rne (x / s)) * s"
    unfolding s_def L_def
    by (rule round_double_pos) (use xpos Lm in \<open>auto simp: L_def\<close>)
  have "\<bar>of_int (rne (x / s)) - x / s\<bar> \<le> 1 / 2" by (rule rne_bounds)
  then have 1: "\<bar>of_int (rne (x / s)) * s - x\<bar> \<le> s / 2"
    using spos by (simp add: field_simps abs_le_iff)
  have "(2::rat) powi ((L - 52) + 52) = 2 powi (L - 52) * 2 powi 52"
    by (rule power_int_add) simp
  then have "s * 2 ^ 52 = 2 powi L" by (simp add: s_def)
  then have "s * 2 ^ 52 \<le> x" using Lb(1) by simp
  then have "s / 2 \<le> x / 2 ^ 53" by (simp add: field_simps)
  with 1 show ?thesis by (simp add: Re)
qed

lemma round_double_of_nat:
  assumes "n < 2 ^ 53"
  shows "round_double (of_nat n) = of_nat n"
proof (cases "n = 0")
  case True
  then show ?thesis by (simp add: round_double_def)
next
  case False
  define x :: rat where "x = of_nat n"
  define L where "L = ilog2 x"
  define s :: rat where "s = 2 powi (L - 52)"
  have "(of_nat n :: rat) < of_nat (2 ^ 53)" using assms by (simp only: of_nat_less_iff)
  then have xb: "1 \<le> x" "x < 2 ^ 53" using False by (simp_all add: x_def)
  have xpos: "0 < x" using xb by linarith
  have Lb: "2 powi L \<le> x" "x < 2 powi (L + 1)"
    unfolding L_def using ilog2_bounds[OF xpos] by auto
  have "(2::rat) powi L < 2 powi 53" using Lb(1) xb by simp
  then have L53: "L < 53" by (rule powi2_less_imp)
  have "(2::rat) powi 0 < 2 powi (L + 1)" using Lb(2) xb by simp
  then have L0: "0 < L + 1" by (rule powi2_less_imp)
  have Re: "round_double x = of_int (rne (x / s)) * s"
    unfolding s_def L_def
    by (rule round_double_pos) (use xpos L0 in \<open>auto simp: L_def\<close>)
  define j where "j = int n * 2 ^ nat (52 - L)"
  have "(2::rat) powi ((L - 52) + (52 - L)) = 2 powi (L - 52) * 2 powi (52 - L)"
    by (rule power_int_add) simp
  then have "s * 2 powi (52 - L) = 1" by (simp add: s_def)
  then have s1: "s * 2 ^ nat (52 - L) = 1" using L53 by (simp add: power_int_def)
  then have js: "of_int j * s = x"
    by (simp add: j_def x_def mult.assoc mult.commute[of s])
  have spos: "0 < s" by (simp add: s_def)
  have "x / s = of_int j" using js spos by (simp add: field_simps)
  then have "rne (x / s) = j" by (simp add: rne_of_int)
  then show ?thesis using Re js by (simp add: x_def)
qed

lemma index_eq:
  assumes n1: "1 \<le> n" and n2: "n < 2 ^ 45"
  shows "py_int (dmul d099 (float_of_nat n)) = (99 * int n) div 100"
proof -
  define x where "x = d099 * of_nat n"
  define L where "L = ilog2 x"
  define s :: rat where "s = 2 powi (L - 52)"
  define k where "k = (99 * int n) div 100"
  define r where "r = (99 * int n) mod 100"
  define R where "R = round_double x"
  have "n < 2 ^ 53" using n2 by (rule less_trans) simp
  then have fn: "float_of_nat n = of_nat n"
    unfolding float_of_nat_def by (rule round_double_of_nat)
  have "(of_nat n :: rat) < of_nat (2 ^ 45)" using n2 by (simp only: of_nat_less_iff)
  then have nr: "(1::rat) \<le> of_nat n" "(of_nat n :: rat) < 2 ^ 45"
    using n1 by simp_all
  have xe: "x = 99 * of_nat n / 100 - 8 * of_nat n / (100 * 2 ^ 53)"
    by (simp add: x_def d099_val field_simps)
  have xlo: "of_nat n / 2 < x" and xhi: "x < of_nat n"
    using nr by (simp_all add: xe field_simps)
  have xpos: "0 < x" using xlo nr by linarith
  have Lb: "2 powi L \<le> x" "x < 2 powi (L + 1)"
    unfolding L_def using ilog2_bounds[OF xpos] by auto
  have "(2::rat) powi L < 2 powi 45" using Lb(1) xhi nr by simp
  then have L45: "L < 45" by (rule powi2_less_imp)
  have "(2::rat) powi (- 1) < 2 powi (L + 1)" using Lb(2) xlo nr by simp
  then have Lm: "- 1 < L + 1" by (rule powi2_less_imp)
  have spos: "0 < s" by (simp add: s_def)
  have s8: "s \<le> 2 powi (- 8)" unfolding s_def
    by (rule power_int_increasing) (use L45 in auto)
  have Re: "R = of_int (rne (x / s)) * s"
    unfolding R_def s_def L_def
    by (rule round_double_pos) (use xpos Lm in \<open>auto simp: L_def\<close>)
  have "\<bar>of_int (rne (x / s)) - x / s\<bar> \<le> 1 / 2" by (rule rne_bounds)
  then have "\<bar>of_int (rne (x / s)) * s - x\<bar> \<le> s / 2"
    using spos by (simp add: field_simps abs_le_iff)
  then have Rx: "\<bar>R - x\<bar> \<le> 1 / 512" using s8 by (simp add: Re)
  have kr: "99 * int n = 100 * k + r" "0 \<le> r" "r < 100"
    by (simp_all add: k_def r_def)
  have krr: "99 * (of_nat n :: rat) = 100 * of_int k + of_int r"
    using kr(1) by (metis of_int_add of_int_mult of_int_numeral of_int_of_nat_eq)
  have rr: "(0::rat) \<le> of_int r" "(of_int r :: rat) \<le> 99"
    using kr(2,3) by simp_all
  have up: "R < of_int k + 1"
    using Rx krr rr nr by (simp add: xe field_simps abs_le_iff)
  have lo: "of_int k \<le> R"
  proof (cases "r = 0")
    case False
    then have "1 \<le> r" using kr(2) by simp
    then have "(1::rat) \<le> of_int r" by simp
    then show ?thesis
      using Rx krr nr by (simp add: xe field_simps abs_le_iff)
  next
    case True
    have xk: "x = of_int k - 8 * of_nat n / (100 * 2 ^ 53)"
      using krr True by (simp add: xe)
    have "(2::rat) powi ((L - 52) + 53) = 2 powi (L - 52) * 2 powi 53"
      by (rule power_int_add) simp
    then have "s * 2 ^ 53 = 2 powi (L + 1)" by (simp add: s_def add.commute)
    then have "of_nat n / 2 < s * 2 ^ 53" using Lb(2) xlo by simp
    then have small: "8 * of_nat n / (100 * 2 ^ 53) < s / 2"
      using nr by (simp add: field_simps)
    define j where "j = k * 2 ^ nat (52 - L)"
    have "(2::rat) powi ((L - 52) + (52 - L)) = 2 powi (L - 52) * 2 powi (52 - L)"
      by (rule power_int_add) simp
    then have "s * 2 powi (52 - L) = 1" by (simp add: s_def)
    then have "s * 2 ^ nat (52 - L) = 1" using L45 by (simp add: power_int_def)
    then have js: "of_int j * s = of_int k"
      by (simp add: j_def mult.assoc mult.commute[of s])
    have "x / s - of_int j = (x - of_int j * s) / s" using spos by (simp add: field_simps)
    also have "\<dots> = - (8 * of_nat n / (100 * 2 ^ 53)) / s" by (simp add: js xk)
    finally have "\<bar>x / s - of_int j\<bar> = (8 * of_nat n / (100 * 2 ^ 53)) / s"
      using spos by (simp add: abs_mult)
    also have "\<dots> < 1 / 2" using small spos by (simp add: field_simps)
    finally have "rne (x / s) = j" by (rule rne_near)
    then show ?thesis by (simp add: Re js)
  qed
  have "\<lfloor>R\<rfloor> = k" by (rule floor_unique) (use up lo in auto)
  moreover have "0 \<le> k" by (simp add: k_def)
  then have "(0::rat) \<le> of_int k" by simp
  then have "0 \<le> R" using lo by linarith
  ultimately show ?thesis
    by (simp add: dmul_def py_int_def R_def x_def k_def fn)
qed

lemma index_in_range:
  assumes n1: "1 \<le> n"
  shows "0 \<le> py_int (dmul d099 (float_of_nat n))"
    and "py_int (dmul d099 (float_of_nat n)) < int n"
proof -
  define y where "y = float_of_nat n"
  define z where "z = d099 * y"
  define R where "R = round_double z"
  have nr: "(1::rat) \<le> of_nat n" using n1 by simp
  have p53: "(2::rat) ^ 53 = 9007199254740992" by simp
  have p: "(2::rat) powi (- 1022) \<le> 1 / 2"
    using power_int_increasing[of "- 1022" "- 1" "2::rat"] by simp
  have "\<bar>round_double (of_nat n) - of_nat n\<bar> \<le> of_nat n / 2 ^ 53"
    by (rule round_double_rel) (use nr p in linarith)
  then have yb: "\<bar>y - of_nat n\<bar> \<le> of_nat n / 2 ^ 53"
    by (simp add: y_def float_of_nat_def)
  have yb2: "of_nat n - of_nat n / 9007199254740992 \<le> y"
    "y \<le> of_nat n + of_nat n / 9007199254740992"
    using yb unfolding p53 by linarith+
  have ze: "z = 8917127262193582 * y / 9007199254740992" by (simp add: z_def d099_val)
  have zlo: "1 / 2 \<le> z" using yb2 nr unfolding ze by linarith
  have "\<bar>round_double z - z\<bar> \<le> z / 2 ^ 53"
    by (rule round_double_rel) (use zlo p in linarith)
  then have Rb: "z - z / 9007199254740992 \<le> R" "R \<le> z + z / 9007199254740992"
    unfolding p53 R_def by linarith+
  have R0: "0 \<le> R" using Rb zlo by linarith
  have Rn: "R < of_nat n" using Rb yb2 nr unfolding ze by linarith
  have pe: "py_int (dmul d099 (float_of_nat n)) = \<lfloor>R\<rfloor>"
    using R0 by (simp add: py_int_def dmul_def R_def z_def y_def)
  show "0 \<le> py_int (dmul d099 (float_of_nat n))" using R0 by (simp add: pe)
  have "\<lfloor>R\<rfloor> < int n" using Rn by (simp add: floor_less_iff)
  then show "py_int (dmul d099 (float_of_nat n)) < int n" by (simp add: pe)
qed

lemma fmt_4f_close: "\<bar>fmt_4f x - x\<bar> \<le> 1 / 20000"
proof -
  have "\<bar>of_int (rne (x * 10000)) - x * 10000\<bar> \<le> 1 / 2" by (rule rne_bounds)
  then show ?thesis unfolding fmt_4f_def by (simp add: abs_le_iff field_simps)
qed

lemma rd64: "round_double (1 / 64) = 1 / 64" by code_simp

lemma rd32: "round_double (1 / 32) = 1 / 32" by code_simp

lemma fmt64: "fmt_4f (1 / 64) = 39 / 2500" by code_simp

lemma fmt0: "fmt_4f 0 = 0" by code_simp

section \<open>Replacing in strings\<close>

lemma str_replace_absent:
  "\<not> occurs ''.wav'' s \<Longrightarrow> str_replace ''.wav'' '''' s = s"
  by (induction s) auto

lemma take4_append_wav:
  assumes "take 4 (s @ ''.wav'') = ''.wav''" and "s \<noteq> []"
  shows "take 4 s = ''.wav''"
proof -
  consider (1) a where "s = [a]" | (2) a b where "s = [a, b]" | (3) a b c where "s = [a, b, c]"
    | (4) a b c d t where "s = a # b # c # d # t"
    using assms(2) by (cases s rule: list.exhaust; simp)
       (metis list.exhaust)
  then show ?thesis using assms(1) by cases auto
qed

lemma str_replace_trailing:
  "\<not> occurs ''.wav'' s \<Longrightarrow> str_replace ''.wav'' '''' (s @ ''.wav'') = s"
proof (induction s)
  case Nil
  then show ?case by simp
next
  case (Cons c cs)
  from Cons.prems have p: "take 4 (c # cs) \<noteq> ''.wav''" "\<not> occurs ''.wav'' cs"
    by (simp_all add: numeral_eq_Suc)
  have "take 4 ((c # cs) @ ''.wav'') \<noteq> ''.wav''"
    using take4_append_wav[of "c # cs"] p(1) by blast
  then have "str_replace ''.wav'' '''' ((c # cs) @ ''.wav'') =
      c # str_replace ''.wav'' '''' (cs @ ''.wav'')"
    by (auto simp: numeral_eq_Suc)
  with Cons.IH[OF p(2)] show ?case by simp
qed

lemma str_replace_spec:
  assumes "\<not> occurs ''.wav'' (spec_strip_suffix name)"
  shows "str_replace ''.wav'' '''' name = spec_strip_suffix name"
proof (cases "4 \<le> length name \<and> drop (length name - 4) name = ''.wav''")
  case True
  then have n: "name = take (length name - 4) name @ ''.wav''"
    by (metis append_take_drop_id)
  have "spec_strip_suffix name = take (length name - 4) name"
    using True by (simp add: spec_strip_suffix_def)
  with assms str_replace_trailing[of "take (length name - 4) name"] n
  show ?thesis by simp
next
  case False
  then have "spec_strip_suffix name = name" by (auto simp: spec_strip_suffix_def)
  with assms str_replace_absent show ?thesis by simp
qed

section \<open>Submitting, completing, collecting\<close>

lemma submit_docs_eq:
  "submit_docs query query_name docs futures =
     futures @ map (\<lambda>(doc, doc_name). (query, doc, query_name, str_replace ''.wav'' '''' doc_name)) docs"
  unfolding submit_docs_def
  by (induction docs arbitrary: futures) (auto simp: case_prod_unfold)

lemma fold_submit_docs:
  "fold (\<lambda>(query, query_name) futures.
           submit_docs query (str_replace ''.wav'' '''' query_name) docs futures) queries futures =
   futures @ concat (map (\<lambda>(query, query_name).
       map (\<lambda>(doc, doc_name). (query, doc, str_replace ''.wav'' '''' query_name,
                                str_replace ''.wav'' '''' doc_name)) docs) queries)"
  by (induction queries arbitrary: futures) (auto simp: submit_docs_eq case_prod_unfold)

lemma submit_all_eq:
  "submit_all queries docs =
     concat (map (\<lambda>(query, query_name).
       map (\<lambda>(doc, doc_name). (query, doc, str_replace ''.wav'' '''' query_name,
                                str_replace ''.wav'' '''' doc_name)) docs) queries)"
  unfolding submit_all_def by (simp add: fold_submit_docs)

lemma submit_all_product:
  "submit_all queries docs =
     map (\<lambda>((query, query_name), (doc, doc_name)).
            (query, doc, str_replace ''.wav'' '''' query_name, str_replace ''.wav'' '''' doc_name))
       (List.product queries docs)"
  unfolding submit_all_eq
  by (induction queries) (auto simp: case_prod_unfold comp_def)

lemma length_submit_all: "length (submit_all queries docs) = length queries * length docs"
  by (simp add: submit_all_product)

lemma completion_order_mset:
  assumes "completion_order n order"
  shows "mset order = mset [0..<n]"
proof -
  have "mset (sort order) = mset order" by simp
  with assms show ?thesis by (simp add: completion_order_def)
qed

lemma completion_order_length:
  assumes "completion_order n order"
  shows "length order = n"
  using arg_cong[OF completion_order_mset[OF assms], of size] by simp

lemma mset_as_completed:
  assumes "completion_order (length futures) order"
  shows "mset (as_completed futures order) = mset futures"
proof -
  have "mset (as_completed futures order) = image_mset (\<lambda>i. futures ! i) (mset order)"
    by (simp add: as_completed_def)
  also have "\<dots> = image_mset (\<lambda>i. futures ! i) (mset [0..<length futures])"
    using completion_order_mset[OF assms] by simp
  also have "\<dots> = mset (map (\<lambda>i. futures ! i) [0..<length futures])" by simp
  also have "\<dots> = mset futures" by (simp add: map_nth)
  finally show ?thesis .
qed

lemma completion_order_0: "completion_order 0 order \<Longrightarrow> order = []"
  using completion_order_mset[of 0 order] by simp

lemma match_results_Inr:
  assumes "1 \<le> num_workers"
  shows "match_results segmental_dtw num_workers queries docs order =
           Inr (completed_results segmental_dtw (submit_all queries docs) order)"
  using assms by (simp add: match_results_def)

lemma mset_completed:
  assumes "completion_order (length (submit_all queries docs)) order"
  shows "mset (completed_results segmental_dtw (submit_all queries docs) order) =
         image_mset (\<lambda>((query, query_name), (doc, doc_name)).
             match segmental_dtw query doc
               (str_replace ''.wav'' '''' query_name) (str_replace ''.wav'' '''' doc_name))
           (mset (List.product queries docs))"
proof -
  have "mset (completed_results segmental_dtw (submit_all queries docs) order) =
      image_mset (future_result segmental_dtw) (mset (submit_all queries docs))"
    by (simp add: completed_results_def mset_as_completed[OF assms])
  also have "\<dots> = image_mset (\<lambda>((query, query_name), (doc, doc_name)).
             match segmental_dtw query doc
               (str_replace ''.wav'' '''' query_name) (str_replace ''.wav'' '''' doc_name))
           (mset (List.product queries docs))"
    by (simp add: submit_all_product future_result_def image_mset.compositionality comp_def
        case_prod_unfold)
  finally show ?thesis .
qed

lemma set_completed:
  assumes "completion_order (length futures) order"
  shows "set (completed_results segmental_dtw futures order) =
           future_result segmental_dtw ` set futures"
proof -
  have "set (as_completed futures order) = set futures"
    using mset_as_completed[OF assms] by (rule mset_eq_setD)
  then show ?thesis by (simp add: completed_results_def)
qed

lemma map_of_dict_append:
  "map_of (dict_append results k v) = (map_of results)(k \<mapsto> dict_get results k @ [v])"
  by (induction results k v rule: dict_append.induct) (auto simp: dict_get_def fun_eq_iff)

lemma dict_get_dict_append:
  "dict_get (dict_append results k v) k' =
     (if k' = k then dict_get results k @ [v] else dict_get results k')"
  by (simp add: dict_get_def[of "dict_append results k v"] map_of_dict_append)
     (simp add: dict_get_def)

lemma keys_dict_append:
  "map fst (dict_append results k v) =
     (if k \<in> fst ` set results then map fst results else map fst results @ [k])"
  by (induction results k v rule: dict_append.induct) auto

lemma keys_set_dict_append:
  "fst ` set (dict_append results k v) = insert k (fst ` set results)"
  using arg_cong[OF keys_dict_append[of results k v], of set] by auto

lemma collect_fold:
  "fold (\<lambda>(query_name, doc_name, score) (results, scores).
           (dict_append results query_name (doc_name, score), scores @ [score]))
     completed (results, scores) =
   (fold (\<lambda>(query_name, doc_name, score) results.
            dict_append results query_name (doc_name, score)) completed results,
    scores @ map (\<lambda>(query_name, doc_name, score). score) completed)"
  by (induction completed arbitrary: results scores) (auto simp: case_prod_unfold)

lemma collect_Nil: "collect [] = ([], [])"
  by (simp add: collect_def)

lemma collect_scores: "snd (collect completed) = map (\<lambda>(query_name, doc_name, score). score) completed"
  by (simp add: collect_def collect_fold)

lemma fold_dict_get:
  "dict_get (fold (\<lambda>(query_name, doc_name, score) results.
            dict_append results query_name (doc_name, score)) completed results) k =
   dict_get results k @
     map (\<lambda>(query_name, doc_name, score). (doc_name, score))
       (filter (\<lambda>(query_name, doc_name, score). query_name = k) completed)"
  by (induction completed arbitrary: results) (auto simp: dict_get_dict_append case_prod_unfold)

lemma collect_dict_get:
  "dict_get (fst (collect completed)) k =
     map (\<lambda>(query_name, doc_name, score). (doc_name, score))
       (filter (\<lambda>(query_name, doc_name, score). query_name = k) completed)"
  by (simp add: collect_def collect_fold fold_dict_get) (simp add: dict_get_def)

lemma fold_keys:
  "fst ` set (fold (\<lambda>(query_name, doc_name, score) results.
            dict_append results query_name (doc_name, score)) completed results) =
   fst ` set results \<union> fst ` set completed"
  by (induction completed arbitrary: results)
     (simp_all add: keys_set_dict_append case_prod_unfold)

lemma collect_keys: "fst ` set (fst (collect completed)) = fst ` set completed"
  by (simp add: collect_def collect_fold fold_keys)

lemma fold_keys_distinct:
  "distinct (map fst results) \<Longrightarrow>
   distinct (map fst (fold (\<lambda>(query_name, doc_name, score) results.
            dict_append results query_name (doc_name, score)) completed results))"
  by (induction completed arbitrary: results) (auto simp: keys_dict_append case_prod_unfold)

lemma collect_keys_distinct: "distinct (map fst (fst (collect completed)))"
  by (simp add: collect_def collect_fold fold_keys_distinct)

lemma collect_scores_cong:
  assumes "mset completed1 = mset completed2"
  shows "mset (snd (collect completed1)) = mset (snd (collect completed2))"
  by (simp add: collect_scores assms)

lemma collect_dict_get_cong:
  assumes "mset completed1 = mset completed2"
  shows "mset (dict_get (fst (collect completed1)) k) =
         mset (dict_get (fst (collect completed2)) k)"
  by (simp add: collect_dict_get assms)

lemma div_mod_pair:
  fixes i j n :: nat
  assumes "j < n"
  shows "(i * n + j) div n = i" and "(i * n + j) mod n = j"
  using assms by (simp_all add: add.commute[of "i * n"])

lemma submit_all_nth:
  assumes "i < length queries" and "j < length docs"
    and "queries ! i = (query, query_name)" and "docs ! j = (doc, doc_name)"
  shows "submit_all queries docs ! (i * length docs + j) =
           (query, doc, str_replace ''.wav'' '''' query_name, str_replace ''.wav'' '''' doc_name)"
proof -
  have "i * length docs + j < i * length docs + length docs" using assms(2) by simp
  also have "\<dots> = Suc i * length docs" by simp
  also have "\<dots> \<le> length queries * length docs"
    using assms(1) by (intro mult_le_mono1) simp
  finally have lt: "i * length docs + j < length queries * length docs" .
  have dm: "(i * length docs + j) div length docs = i" "(i * length docs + j) mod length docs = j"
    using assms(2) by (rule div_mod_pair)+
  have "List.product queries docs ! (i * length docs + j) = (queries ! i, docs ! j)"
    using product_nth[OF lt] by (simp only: dm)
  then show ?thesis
    using lt by (simp add: submit_all_product assms(3,4))
qed

lemma completion_order_nth_less:
  assumes "completion_order n order" and "p < length order"
  shows "order ! p < n"
proof -
  have "order ! p \<in> set order" using assms(2) by simp
  also have "set order = set [0..<n]"
    using completion_order_mset[OF assms(1)] by (rule mset_eq_setD)
  finally show ?thesis by simp
qed

lemma completed_results_nth:
  assumes "p < length order"
  shows "completed_results segmental_dtw futures order ! p =
           future_result segmental_dtw (futures ! (order ! p))"
  using assms by (simp add: completed_results_def as_completed_def)

lemma length_completed_results:
  "length (completed_results segmental_dtw futures order) = length order"
  by (simp add: completed_results_def as_completed_def)

lemma filter_nth_position:
  assumes "p < length xs" and "P (xs ! p)"
  shows "length (filter P (take p xs)) < length (filter P xs)"
    and "filter P xs ! length (filter P (take p xs)) = xs ! p"
proof -
  have xs: "xs = take p xs @ xs ! p # drop (Suc p) xs"
    using assms(1) by (simp add: id_take_nth_drop)
  have f: "filter P xs = filter P (take p xs) @ xs ! p # filter P (drop (Suc p) xs)"
    using assms(2) by (subst xs) simp
  show "length (filter P (take p xs)) < length (filter P xs)" by (subst f) simp
  show "filter P xs ! length (filter P (take p xs)) = xs ! p" by (subst f) simp
qed

lemma collect_position:
  assumes "p < length completed" and "completed ! p = (query_name, doc_name, score)"
  shows "length (filter (\<lambda>r. fst r = query_name) (take p completed))
           < length (dict_get (fst (collect completed)) query_name)"
    and "dict_get (fst (collect completed)) query_name
           ! length (filter (\<lambda>r. fst r = query_name) (take p completed)) = (doc_name, score)"
proof -
  have e: "(\<lambda>(q, d, s). q = query_name) = (\<lambda>r. fst r = query_name)"
    by (simp add: fun_eq_iff)
  have P: "fst (completed ! p) = query_name" using assms(2) by simp
  note F = filter_nth_position[OF assms(1), of "\<lambda>r. fst r = query_name", OF P]
  show "length (filter (\<lambda>r. fst r = query_name) (take p completed))
           < length (dict_get (fst (collect completed)) query_name)"
    using F(1) by (simp add: collect_dict_get e)
  show "dict_get (fst (collect completed)) query_name
           ! length (filter (\<lambda>r. fst r = query_name) (take p completed)) = (doc_name, score)"
    using F by (simp add: collect_dict_get e assms(2))
qed

lemma build_tree_termlist:
  assumes "distinct (map fst results)" and "k \<in> fst ` set results"
  shows "\<exists>a<length results.
           termid (build_tree results score_thresh score_min ! a) = k \<and>
           terms (build_tree results score_thresh score_min ! a) =
             map (make_term score_thresh score_min) (dict_get results k)"
proof -
  from assms(2) obtain a where a: "a < length results" "fst (results ! a) = k"
    by (auto simp: in_set_conv_nth)
  then have "(k, snd (results ! a)) \<in> set results"
    by (metis nth_mem prod.collapse)
  then have "map_of results k = Some (snd (results ! a))"
    using assms(1) by simp
  then have "dict_get results k = snd (results ! a)" by (simp add: dict_get_def)
  then show ?thesis using a by (auto simp: build_tree_def case_prod_unfold)
qed

lemma build_tree_termids:
  "map termid (build_tree results score_thresh score_min) = map fst results"
  by (simp add: build_tree_def case_prod_unfold comp_def)

section \<open>Sorting and the threshold\<close>

lemma sort_mset_cong:
  fixes xs ys :: "rat list"
  assumes "mset xs = mset ys"
  shows "sort xs = sort ys"
  by (rule properties_for_sort) (simp_all add: assms)

lemma threshold_mset_cong:
  assumes "mset xs = mset ys"
  shows "threshold xs = threshold ys"
  unfolding threshold_def by (simp add: sort_mset_cong[OF assms])

lemma sorted_nth0_Min:
  fixes xs :: "rat list"
  assumes "sorted xs" and "xs \<noteq> []"
  shows "xs ! 0 = Min (set xs)"
proof -
  obtain x ys where xs: "xs = x # ys" using assms(2) by (cases xs) auto
  with assms(1) have "\<forall>y\<in>set ys. x \<le> y" by simp
  then have "Min (set xs) = x" unfolding xs by (intro Min_eqI) auto
  then show ?thesis by (simp add: xs)
qed

lemma floor_099: "\<lfloor>(99 / 100 :: rat) * of_nat n\<rfloor> = (99 * int n) div 100"
proof -
  have "(99 / 100 :: rat) * of_nat n = of_int (99 * int n) / of_int 100" by simp
  then show ?thesis by (simp only: floor_divide_of_int_eq)
qed

lemma threshold_Nil: "threshold [] = Inl IndexError"
  by (simp add: threshold_def float_of_nat_def dmul_def round_double_def py_int_def
      py_getitem_def)

lemma threshold_eq:
  assumes "scores \<noteq> []" and "length scores < 2 ^ 45"
  shows "threshold scores =
           Inr (sort scores ! nat ((99 * int (length scores)) div 100), sort scores ! 0)"
proof -
  have n1: "1 \<le> length (sort scores)" using assms(1) by (cases scores) simp_all
  have n2: "length (sort scores) < 2 ^ 45" using assms(2) by simp
  have ie: "py_int (dmul d099 (float_of_nat (length (sort scores)))) =
      (99 * int (length scores)) div 100"
    using index_eq[OF n1 n2] by simp
  have pos: "0 < length scores" using assms(1) by simp
  then have lt: "(99 * int (length scores)) div 100 < int (length scores)" by linarith
  have ge: "0 \<le> (99 * int (length scores)) div 100" by simp
  show ?thesis
    unfolding threshold_def Let_def ie using lt ge pos
    by (simp add: py_getitem_def)
qed

lemma threshold_example: "threshold [0, - (1 / 64)] = Inr (0, - (1 / 64))"
proof -
  have "threshold [0, - (1 / 64)] =
      Inr (sort [0, - (1 / 64)] ! nat ((99 * int (length [0, - (1 / 64) :: rat])) div 100),
           sort [0, - (1 / 64)] ! 0)"
    by (rule threshold_eq) simp_all
  then show ?thesis by simp
qed

lemma threshold_single: "threshold [0] = Inr (0, 0)"
proof -
  have "threshold [0] =
      Inr (sort [0] ! nat ((99 * int (length [0 :: rat])) div 100), sort [0] ! 0)"
    by (rule threshold_eq) simp_all
  then show ?thesis by simp
qed

section \<open>Runs on small inputs\<close>

lemma submit_example:
  "submit_all [(0::nat, ''q1.wav'')] [(1::nat, ''d1.wav''), (2, ''d2.wav'')] =
     [(0, 1, ''q1'', ''d1''), (0, 2, ''q1'', ''d2'')]"
  by (simp add: submit_all_eq)

lemma completed_example:
  "completed_results (\<lambda>q d. of_nat d / 64)
     [(0::nat, 1::nat, ''q1'', ''d1''), (0, 2, ''q1'', ''d2'')] [1, 0] =
   [(''q1'', ''d2'', - (1 / 32)), (''q1'', ''d1'', - (1 / 64))]"
  by (simp add: completed_results_def as_completed_def future_result_def match_def dmul_def
      round_double_minus rd64 rd32)

section \<open>The alignment wrapper\<close>

text \<open>
  C5. The score that \<^verbatim>\<open>match\<close> returns is the negated cost of \<^verbatim>\<open>segmental_dtw\<close>: the
  product \<^verbatim>\<open>-1 * cost\<close> is exact for every float cost, so a lower cost gives a higher
  score, and the two names are passed on unchanged.
\<close>

theorem match_score_is_negated_cost:
  assumes "is_double (segmental_dtw query doc)"
  shows "match segmental_dtw query doc query_name doc_name =
           (query_name, doc_name, - segmental_dtw query doc)"
  using assms by (simp add: match_def dmul_def round_double_minus is_double_def)

theorem match_score_is_negated_cost_witness:
  "is_double ((\<lambda>q d. 1 / 32) (0::nat) (1::nat)) \<and>
   match (\<lambda>q d. 1 / 32) (0::nat) (1::nat) ''q1'' ''d1'' = (''q1'', ''d1'', - (1 / 32))"
proof -
  have r: "round_double (1 / 32) = 1 / 32" by code_simp
  have b: "\<bar>1 / 32 :: rat\<bar> < 2 ^ 1024" by simp
  have h: "is_double ((\<lambda>q d. 1 / 32) (0::nat) (1::nat))"
    unfolding is_double_def using r b by (rule conjI)
  show ?thesis
    using h match_score_is_negated_cost[of "\<lambda>q d. 1 / 32" 0 1 "''q1''" "''d1''", OF h]
    by (rule conjI)
qed

section \<open>The dispatcher\<close>

text \<open>
  C4. With a pool of at least one worker the dispatcher submits one future for every
  pair of a query and a document, \<open>length queries * length docs\<close> in all, and the
  collecting loop sees as many results: as a multiset they are the image of the cross
  product \<open>List.product queries docs\<close>, in which every pair of positions occurs once
  (and which has no repetition when the queries and the documents have none), so no pair
  is missing and none is repeated, whatever the completion order and the number of
  workers.
\<close>

theorem dispatcher_covers_cross_product:
  assumes "1 \<le> num_workers"
    and "completion_order (length (submit_all queries docs)) order"
  shows "match_results segmental_dtw num_workers queries docs order =
           Inr (completed_results segmental_dtw (submit_all queries docs) order) \<and>
         length (submit_all queries docs) = length queries * length docs \<and>
         length (completed_results segmental_dtw (submit_all queries docs) order) =
           length queries * length docs \<and>
         mset (completed_results segmental_dtw (submit_all queries docs) order) =
           image_mset (\<lambda>((query, query_name), (doc, doc_name)).
               match segmental_dtw query doc
                 (str_replace ''.wav'' '''' query_name) (str_replace ''.wav'' '''' doc_name))
             (mset (List.product queries docs)) \<and>
         (distinct queries \<and> distinct docs \<longrightarrow> distinct (List.product queries docs))"
proof -
  have "length (completed_results segmental_dtw (submit_all queries docs) order) =
      length queries * length docs"
    using completion_order_length[OF assms(2)]
    by (simp add: completed_results_def as_completed_def length_submit_all)
  moreover have "distinct queries \<and> distinct docs \<longrightarrow> distinct (List.product queries docs)"
    by (simp add: distinct_product)
  ultimately show ?thesis
    using match_results_Inr[OF assms(1)] mset_completed[OF assms(2)] length_submit_all
    by (intro conjI)
qed

theorem dispatcher_covers_cross_product_witness:
  "(1::int) \<le> 2 \<and>
   completion_order
     (length (submit_all [(0::nat, ''q1.wav''), (1, ''q2.wav'')] [(2, ''d1.wav''), (3, ''d2.wav'')]))
     [2, 0, 3, 1] \<and>
   length (completed_results (\<lambda>q d. 0)
     (submit_all [(0::nat, ''q1.wav''), (1, ''q2.wav'')] [(2, ''d1.wav''), (3, ''d2.wav'')])
     [2, 0, 3, 1]) = 4"
proof -
  have h1: "(1::int) \<le> 2" by simp
  have h2: "completion_order
     (length (submit_all [(0::nat, ''q1.wav''), (1, ''q2.wav'')] [(2, ''d1.wav''), (3, ''d2.wav'')]))
     [2, 0, 3, 1]"
    by (simp add: length_submit_all completion_order_def upt_rec)
  have "length (completed_results (\<lambda>q d. 0)
     (submit_all [(0::nat, ''q1.wav''), (1, ''q2.wav'')] [(2, ''d1.wav''), (3, ''d2.wav'')])
     [2, 0, 3, 1]) = 4"
    using dispatcher_covers_cross_product[OF h1 h2, of "\<lambda>q d. 0",
        THEN conjunct2, THEN conjunct2, THEN conjunct1] by simp
  with h1 h2 show ?thesis by (intro conjI)
qed

text \<open>
  C6. Without queries or without documents nothing is submitted, and the dispatcher, with
  its pool of at least one worker, ends with an empty list of results and no error.
\<close>

theorem dispatcher_empty_input:
  assumes "1 \<le> num_workers"
    and "queries = [] \<or> docs = []"
    and "completion_order (length (submit_all queries docs)) order"
  shows "match_results segmental_dtw num_workers queries docs order = Inr []"
proof -
  have "length (submit_all queries docs) = 0"
    using assms(2) by (auto simp: length_submit_all)
  with assms(3) have "order = []" by (simp add: completion_order_0)
  then show ?thesis
    using assms(1) by (simp add: match_results_def completed_results_def as_completed_def)
qed

theorem dispatcher_empty_input_witness:
  "(1::int) \<le> 1 \<and>
   ([] = ([] :: (nat \<times> string) list) \<or> [(1::nat, ''d1.wav'')] = []) \<and>
   completion_order (length (submit_all [] [(1::nat, ''d1.wav'')])) [] \<and>
   match_results (\<lambda>q d. 0) 1 [] [(1::nat, ''d1.wav'')] [] = Inr []"
proof -
  have h1: "(1::int) \<le> 1" by simp
  have h2: "[] = ([] :: (nat \<times> string) list) \<or> [(1::nat, ''d1.wav'')] = []" by simp
  have h3: "completion_order (length (submit_all [] [(1::nat, ''d1.wav'')])) []"
    by (simp add: length_submit_all completion_order_def)
  from h1 h2 h3 dispatcher_empty_input[OF h1 h2 h3, of "\<lambda>q d. 0"]
  show ?thesis by (intro conjI)
qed

section \<open>The aggregator\<close>

text \<open>
  C9, as amended. The keys of \<^verbatim>\<open>results\<close> are the query names after
  \<^verbatim>\<open>replace(".wav", "")\<close>: when there is at least one document, the name of every query,
  so rewritten, is a key. Under each key the entries stand in the order in which their
  results arrived, whatever their scores.
\<close>

theorem queries_are_keys_in_arrival_order:
  assumes "1 \<le> num_workers"
    and "completion_order (length (submit_all queries docs)) order"
    and "docs \<noteq> []"
  shows "match_results segmental_dtw num_workers queries docs order =
           Inr (completed_results segmental_dtw (submit_all queries docs) order) \<and>
         (\<forall>(query, query_name) \<in> set queries.
            str_replace ''.wav'' '''' query_name
              \<in> fst ` set (fst (collect
                    (completed_results segmental_dtw (submit_all queries docs) order)))) \<and>
         (\<forall>k. dict_get (fst (collect
                  (completed_results segmental_dtw (submit_all queries docs) order))) k =
                map (\<lambda>(query_name, doc_name, score). (doc_name, score))
                  (filter (\<lambda>(query_name, doc_name, score). query_name = k)
                    (completed_results segmental_dtw (submit_all queries docs) order)))"
proof -
  let ?c = "completed_results segmental_dtw (submit_all queries docs) order"
  have s: "set ?c = future_result segmental_dtw ` set (submit_all queries docs)"
    using assms(2) by (rule set_completed)
  obtain doc doc_name where d: "(doc, doc_name) \<in> set docs"
    using assms(3) by (cases docs) auto
  have "str_replace ''.wav'' '''' query_name \<in> fst ` set ?c"
    if "(query, query_name) \<in> set queries" for query query_name
  proof -
    have "(query, doc, str_replace ''.wav'' '''' query_name, str_replace ''.wav'' '''' doc_name)
        \<in> set (submit_all queries docs)"
      using that d by (force simp: submit_all_product)
    then have "future_result segmental_dtw
        (query, doc, str_replace ''.wav'' '''' query_name, str_replace ''.wav'' '''' doc_name)
        \<in> set ?c" unfolding s by (rule imageI)
    then show ?thesis by (force simp: future_result_def match_def)
  qed
  then have "\<forall>(query, query_name) \<in> set queries.
      str_replace ''.wav'' '''' query_name \<in> fst ` set (fst (collect ?c))"
    unfolding collect_keys by blast
  moreover have "\<forall>k. dict_get (fst (collect ?c)) k =
                map (\<lambda>(query_name, doc_name, score). (doc_name, score))
                  (filter (\<lambda>(query_name, doc_name, score). query_name = k) ?c)"
    by (intro allI collect_dict_get)
  ultimately show ?thesis using match_results_Inr[OF assms(1)] by (intro conjI)
qed

theorem queries_are_keys_in_arrival_order_witness:
  "(1::int) \<le> 1 \<and>
   completion_order (length (submit_all [(0::nat, ''q1.wav'')] [(1::nat, ''d1.wav''), (2, ''d2.wav'')]))
     [1, 0] \<and>
   [(1::nat, ''d1.wav''), (2, ''d2.wav'')] \<noteq> [] \<and>
   dict_get (fst (collect (completed_results (\<lambda>q d. of_nat d / 64)
       (submit_all [(0::nat, ''q1.wav'')] [(1, ''d1.wav''), (2, ''d2.wav'')]) [1, 0]))) ''q1'' =
     [(''d2'', - (1 / 32)), (''d1'', - (1 / 64))]"
proof -
  have h1: "(1::int) \<le> 1" by simp
  have h2: "completion_order
      (length (submit_all [(0::nat, ''q1.wav'')] [(1::nat, ''d1.wav''), (2, ''d2.wav'')])) [1, 0]"
    by (simp add: length_submit_all completion_order_def upt_rec)
  have h3: "[(1::nat, ''d1.wav''), (2, ''d2.wav'')] \<noteq> []" by simp
  have "dict_get (fst (collect (completed_results (\<lambda>q d. of_nat d / 64)
       (submit_all [(0::nat, ''q1.wav'')] [(1, ''d1.wav''), (2, ''d2.wav'')]) [1, 0]))) ''q1'' =
     [(''d2'', - (1 / 32)), (''d1'', - (1 / 64))]"
    using queries_are_keys_in_arrival_order[OF h1 h2 h3, of "\<lambda>q d. of_nat d / 64",
        THEN conjunct2, THEN conjunct2, THEN spec, of "''q1''"]
    unfolding submit_example completed_example by simp
  with h1 h2 h3 show ?thesis by (intro conjI)
qed

text \<open>
  C9 as stated fails: the query \<^verbatim>\<open>q1.wav\<close> is filed under the key \<^verbatim>\<open>q1\<close>, and
  \<^verbatim>\<open>q1.wav\<close> itself is not a key.
\<close>

theorem query_name_is_key_counterexample:
  "match_results (\<lambda>q d. 0) 1 [(0::nat, ''q1.wav'')] [(1::nat, ''d1.wav'')] [0] =
     Inr [(''q1'', ''d1'', 0)] \<and>
   map fst (fst (collect [(''q1'', ''d1'', 0)])) = [''q1''] \<and>
   ''q1.wav'' \<notin> fst ` set (fst (collect [(''q1'', ''d1'', 0)]))"
  by (simp add: match_results_def submit_all_eq completed_results_def as_completed_def
      future_result_def match_def dmul_def round_double_def collect_def)

section \<open>The score threshold\<close>

text \<open>
  C2. For a list of \<open>N \<ge> 1\<close> scores the threshold is the element at index
  \<open>\<lfloor>0.99 * N\<rfloor>\<close> of the ascending sorted list, taken as it is, and the second component is
  the minimum of the scores. The index is computed in binary64, as the source does; it
  agrees with the exact \<open>\<lfloor>0.99 * N\<rfloor>\<close> for every list of fewer than \<open>2 ^ 45\<close> scores,
  more than a list of pointers in a 48 bit address space can hold.
\<close>

theorem threshold_percentile:
  assumes "scores \<noteq> []" and "length scores < 2 ^ 45"
  shows "threshold scores =
           Inr (sort scores ! nat \<lfloor>(99 / 100 :: rat) * of_nat (length scores)\<rfloor>,
                Min (set scores))"
proof -
  have "sort scores \<noteq> []" using assms(1) by (metis length_0_conv length_sort)
  then have "sort scores ! 0 = Min (set (sort scores))"
    by (intro sorted_nth0_Min sorted_sort)
  then have "sort scores ! 0 = Min (set scores)" by simp
  then show ?thesis
    by (simp only: threshold_eq[OF assms] floor_099)
qed

theorem threshold_percentile_witness:
  "[0, - (1 / 32), - (1 / 4) :: rat] \<noteq> [] \<and>
   length [0, - (1 / 32), - (1 / 4) :: rat] < 2 ^ 45 \<and>
   threshold [0, - (1 / 32), - (1 / 4)] = Inr (0, - (1 / 4))"
proof -
  have h1: "[0, - (1 / 32), - (1 / 4) :: rat] \<noteq> []" by simp
  have h2: "length [0, - (1 / 32), - (1 / 4) :: rat] < 2 ^ 45" by simp
  have e: "(sort [0, - (1 / 32), - (1 / 4) :: rat]
      ! nat \<lfloor>(99 / 100 :: rat) * of_nat (length [0, - (1 / 32), - (1 / 4) :: rat])\<rfloor>,
      Min (set [0, - (1 / 32), - (1 / 4) :: rat])) = (0, - (1 / 4))"
    by code_simp
  have "threshold [0, - (1 / 32), - (1 / 4)] = Inr (0, - (1 / 4))"
    using threshold_percentile[OF h1 h2] unfolding e .
  with h1 h2 show ?thesis by (intro conjI)
qed

text \<open>
  C3. Without any score the threshold cannot be determined: the sorted list is empty, the
  index \<^verbatim>\<open>int(0.99 * 0)\<close> is 0, and the lookup raises. The exception is Python's
  IndexError; it is not caught, so a run whose collecting loop saw no result ends with it
  and writes no report.
\<close>

theorem threshold_empty_fails:
  "threshold [] = Inl IndexError \<and>
   (match_results segmental_dtw num_workers
      (zip (take n_queries (features records)) (take n_queries (audio_names records)))
      (zip (drop n_queries (features records)) (drop n_queries (audio_names records)))
      order = Inr []
    \<longrightarrow> log_records segmental_dtw num_workers n_queries records order = Inl IndexError)"
  by (simp add: log_records_def Let_def collect_Nil threshold_Nil)

theorem threshold_empty_fails_witness:
  "match_results (\<lambda>q d. 0) 1
      (zip (take 1 (features \<lparr>features = [0::nat], audio_names = [''q1.wav'']\<rparr>))
           (take 1 (audio_names \<lparr>features = [0::nat], audio_names = [''q1.wav'']\<rparr>)))
      (zip (drop 1 (features \<lparr>features = [0::nat], audio_names = [''q1.wav'']\<rparr>))
           (drop 1 (audio_names \<lparr>features = [0::nat], audio_names = [''q1.wav'']\<rparr>)))
      [] = Inr [] \<and>
   log_records (\<lambda>q d. 0) 1 1 \<lparr>features = [0::nat], audio_names = [''q1.wav'']\<rparr> [] =
     Inl IndexError"
proof -
  have h: "match_results (\<lambda>q d. 0) 1
      (zip (take 1 (features \<lparr>features = [0::nat], audio_names = [''q1.wav'']\<rparr>))
           (take 1 (audio_names \<lparr>features = [0::nat], audio_names = [''q1.wav'']\<rparr>)))
      (zip (drop 1 (features \<lparr>features = [0::nat], audio_names = [''q1.wav'']\<rparr>))
           (drop 1 (audio_names \<lparr>features = [0::nat], audio_names = [''q1.wav'']\<rparr>)))
      [] = Inr []"
    by (simp add: match_results_def completed_results_def as_completed_def)
  from threshold_empty_fails[of "\<lambda>q d. 0" 1 1
      "\<lparr>features = [0::nat], audio_names = [''q1.wav'']\<rparr>" "[]"] h
  show ?thesis by blast
qed

text \<open>
  C10. For a score list that is not empty the index \<^verbatim>\<open>int(0.99 * len(scores))\<close>, computed
  in binary64 as the source does, is at least 0 and at most \<^verbatim>\<open>len(scores) - 1\<close>, so the
  lookup in the sorted list returns an element and does not raise.
\<close>

theorem threshold_index_in_bounds:
  assumes "scores \<noteq> []"
  shows "0 \<le> py_int (dmul d099 (float_of_nat (length (sort scores)))) \<and>
         py_int (dmul d099 (float_of_nat (length (sort scores))))
           \<le> int (length (sort scores)) - 1 \<and>
         py_getitem (sort scores) (py_int (dmul d099 (float_of_nat (length (sort scores))))) =
           Inr (sort scores ! nat (py_int (dmul d099 (float_of_nat (length (sort scores))))))"
proof -
  have "1 \<le> length (sort scores)" using assms by (cases scores) simp_all
  from index_in_range[OF this] show ?thesis by (simp add: py_getitem_def)
qed

theorem threshold_index_in_bounds_witness:
  "[0, - (1 / 32) :: rat] \<noteq> [] \<and>
   0 \<le> py_int (dmul d099 (float_of_nat (length (sort [0, - (1 / 32) :: rat])))) \<and>
   py_int (dmul d099 (float_of_nat (length (sort [0, - (1 / 32) :: rat]))))
     \<le> int (length (sort [0, - (1 / 32) :: rat])) - 1"
proof -
  have h: "[0, - (1 / 32) :: rat] \<noteq> []" by simp
  from threshold_index_in_bounds[OF h] h show ?thesis by blast
qed

section \<open>The report\<close>

text \<open>
  C1, as amended. Every entry \<open>(doc_name, score)\<close> of a query's list becomes one
  \<^verbatim>\<open>term\<close> element under that query. Its score attribute is the float difference
  \<^verbatim>\<open>score - score_min\<close> written with four decimals, which is within \<open>0.00005\<close> of the
  difference; its decision is YES exactly when \<open>score > score_thresh\<close>, so a score equal to
  the threshold gives NO.
\<close>

theorem report_entry:
  assumes "i < length results" and "j < length (snd (results ! i))"
    and "snd (results ! i) ! j = (doc_name, score)"
  shows "termid (build_tree results score_thresh score_min ! i) = fst (results ! i) \<and>
         (let e = terms (build_tree results score_thresh score_min ! i) ! j in
            term_file e = doc_name \<and>
            term_score e = fmt_4f (dsub score score_min) \<and>
            \<bar>term_score e - dsub score score_min\<bar> \<le> 1 / 20000 \<and>
            (term_decision e = YES \<longleftrightarrow> score_thresh < score) \<and>
            (term_decision e = NO \<longleftrightarrow> score \<le> score_thresh))"
  using assms fmt_4f_close[of "dsub score score_min"]
  by (simp add: build_tree_def make_term_def case_prod_unfold Let_def)

theorem report_entry_witness:
  "(0::nat) < length [(''q1'', [(''d1'', 0 :: rat), (''d2'', - (1 / 64))])] \<and>
   (0::nat) < length (snd ([(''q1'', [(''d1'', 0 :: rat), (''d2'', - (1 / 64))])] ! 0)) \<and>
   snd ([(''q1'', [(''d1'', 0 :: rat), (''d2'', - (1 / 64))])] ! 0) ! 0 = (''d1'', 0) \<and>
   termid (build_tree [(''q1'', [(''d1'', 0), (''d2'', - (1 / 64))])] 0 (- (1 / 64)) ! 0) =
     fst ([(''q1'', [(''d1'', 0 :: rat), (''d2'', - (1 / 64))])] ! 0)"
proof -
  have h1: "(0::nat) < length [(''q1'', [(''d1'', 0 :: rat), (''d2'', - (1 / 64))])]" by simp
  have h2: "(0::nat) < length (snd ([(''q1'', [(''d1'', 0 :: rat), (''d2'', - (1 / 64))])] ! 0))"
    by simp
  have h3: "snd ([(''q1'', [(''d1'', 0 :: rat), (''d2'', - (1 / 64))])] ! 0) ! 0 = (''d1'', 0)"
    by simp
  from h1 h2 h3 report_entry[OF h1 h2 h3, of 0 "- (1 / 64)", THEN conjunct1]
  show ?thesis by (intro conjI)
qed

text \<open>
  C1 as stated fails: with the scores \<open>0\<close> and \<open>- 1/64\<close> the difference for the first
  document is \<open>1/64 = 0.015625\<close>, and the report says \<^verbatim>\<open>0.0156\<close>.
\<close>

theorem normalized_score_exact_counterexample:
  "log_records (\<lambda>q d. of_nat d / 128) 1 1
     \<lparr>features = [7::nat, 0, 2], audio_names = [''q1.wav'', ''d1.wav'', ''d2.wav'']\<rparr> [0, 1] =
   Inr [\<lparr>termid = ''q1'', term_search_time = ''1.0'', oov_term_count = ''1'',
         terms = [\<lparr>term_file = ''d1'', term_channel = ''1'', term_tbeg = ''0.000'',
                   term_dur = ''0.00'', term_score = 39 / 2500, term_decision = NO\<rparr>,
                  \<lparr>term_file = ''d2'', term_channel = ''1'', term_tbeg = ''0.000'',
                   term_dur = ''0.00'', term_score = 0, term_decision = NO\<rparr>]\<rparr>] \<and>
   dsub 0 (- (1 / 64)) = 1 / 64 \<and> (39 / 2500 :: rat) \<noteq> 1 / 64"
proof -
  have c: "completed_results (\<lambda>q d. of_nat d / 128)
      [(7::nat, 0::nat, ''q1'', ''d1''), (7, 2, ''q1'', ''d2'')] [0, Suc 0] =
      [(''q1'', ''d1'', 0), (''q1'', ''d2'', - (1 / 64))]"
    by (simp add: completed_results_def as_completed_def future_result_def match_def dmul_def
        round_double_minus rd64 round_double_0)
  have s: "submit_all [(7::nat, ''q1.wav'')] [(0::nat, ''d1.wav''), (2, ''d2.wav'')] =
      [(7, 0, ''q1'', ''d1''), (7, 2, ''q1'', ''d2'')]"
    by (simp add: submit_all_eq)
  have k: "collect [(''q1'', ''d1'', 0), (''q1'', ''d2'', - (1 / 64))] =
      ([(''q1'', [(''d1'', 0), (''d2'', - (1 / 64))])], [0, - (1 / 64)])"
    by (simp add: collect_def)
  have d1: "dsub 0 (- (1 / 64)) = 1 / 64" by (simp add: dsub_def rd64)
  have d2: "dsub (- (1 / 64)) (- (1 / 64)) = 0" by (simp add: dsub_def round_double_0)
  have "log_records (\<lambda>q d. of_nat d / 128) 1 1
     \<lparr>features = [7::nat, 0, 2], audio_names = [''q1.wav'', ''d1.wav'', ''d2.wav'']\<rparr> [0, 1] =
   Inr [\<lparr>termid = ''q1'', term_search_time = ''1.0'', oov_term_count = ''1'',
         terms = [\<lparr>term_file = ''d1'', term_channel = ''1'', term_tbeg = ''0.000'',
                   term_dur = ''0.00'', term_score = 39 / 2500, term_decision = NO\<rparr>,
                  \<lparr>term_file = ''d2'', term_channel = ''1'', term_tbeg = ''0.000'',
                   term_dur = ''0.00'', term_score = 0, term_decision = NO\<rparr>]\<rparr>]"
    by (simp add: log_records_def match_results_def s c k threshold_example build_tree_def
        make_term_def d1 d2 fmt64 fmt0)
  with d1 show ?thesis by simp
qed

lemma report_entry_of_pair:
  fixes segmental_dtw :: "'f \<Rightarrow> 'f \<Rightarrow> rat"
  defines "completed \<equiv> \<lambda>queries docs order.
      completed_results segmental_dtw (submit_all queries docs) order"
  assumes "completion_order (length (submit_all queries docs)) order"
    and "p < length order"
    and "order ! p = i * length docs + j" and "j < length docs"
    and "queries ! i = (query, query_name)" and "docs ! j = (doc, doc_name)"
    and "\<not> occurs ''.wav'' (spec_strip_suffix doc_name)"
  shows "completed queries docs order ! p =
           (str_replace ''.wav'' '''' query_name, spec_strip_suffix doc_name,
            dmul (- 1) (segmental_dtw query doc)) \<and>
         distinct (map termid
           (build_tree (fst (collect (completed queries docs order))) score_thresh score_min)) \<and>
         (\<exists>a<length (build_tree (fst (collect (completed queries docs order)))
                      score_thresh score_min).
            termid (build_tree (fst (collect (completed queries docs order)))
                      score_thresh score_min ! a) = str_replace ''.wav'' '''' query_name \<and>
            length (filter (\<lambda>r. fst r = str_replace ''.wav'' '''' query_name)
                      (take p (completed queries docs order)))
              < length (terms (build_tree (fst (collect (completed queries docs order)))
                      score_thresh score_min ! a)) \<and>
            term_file (terms (build_tree (fst (collect (completed queries docs order)))
                      score_thresh score_min ! a)
                ! length (filter (\<lambda>r. fst r = str_replace ''.wav'' '''' query_name)
                      (take p (completed queries docs order)))) = spec_strip_suffix doc_name \<and>
            terms (build_tree (fst (collect (completed queries docs order)))
                      score_thresh score_min ! a)
                ! length (filter (\<lambda>r. fst r = str_replace ''.wav'' '''' query_name)
                      (take p (completed queries docs order))) =
              make_term score_thresh score_min
                (spec_strip_suffix doc_name, dmul (- 1) (segmental_dtw query doc)))"
proof -
  let ?c = "completed queries docs order"
  let ?k = "str_replace ''.wav'' '''' query_name"
  let ?s = "dmul (- 1) (segmental_dtw query doc)"
  let ?n = "length (filter (\<lambda>r. fst r = ?k) (take p ?c))"
  let ?tree = "build_tree (fst (collect ?c)) score_thresh score_min"
  have "order ! p < length (submit_all queries docs)"
    using assms(2,3) by (rule completion_order_nth_less)
  then have lt: "i * length docs + j < length queries * length docs"
    by (simp add: assms(4) length_submit_all)
  have i: "i < length queries"
  proof (rule ccontr)
    assume "\<not> i < length queries"
    then have "length queries * length docs \<le> i * length docs"
      by (intro mult_le_mono1) simp
    with lt show False by simp
  qed
  have "?c ! p = future_result segmental_dtw (submit_all queries docs ! (order ! p))"
    unfolding completed_def using assms(3) by (rule completed_results_nth)
  also have "\<dots> = (?k, str_replace ''.wav'' '''' doc_name, ?s)"
    unfolding assms(4) submit_all_nth[OF i assms(5,6,7)]
    by (simp add: future_result_def match_def)
  also have "str_replace ''.wav'' '''' doc_name = spec_strip_suffix doc_name"
    using assms(8) by (rule str_replace_spec)
  finally have cp: "?c ! p = (?k, spec_strip_suffix doc_name, ?s)" .
  have pl: "p < length ?c"
    using assms(3) by (simp add: completed_def length_completed_results)
  note pos = collect_position[OF pl cp]
  have "?k \<in> fst ` set ?c"
    using pl cp by (metis fst_conv image_eqI nth_mem)
  then have "?k \<in> fst ` set (fst (collect ?c))" by (simp only: collect_keys)
  from build_tree_termlist[OF collect_keys_distinct this, of score_thresh score_min]
  obtain a where a: "a < length (fst (collect ?c))" "termid (?tree ! a) = ?k"
    "terms (?tree ! a) = map (make_term score_thresh score_min) (dict_get (fst (collect ?c)) ?k)"
    by blast
  have al: "a < length ?tree" using a(1) by (simp add: build_tree_def)
  have n: "?n < length (terms (?tree ! a))" using pos(1) by (simp add: a(3))
  have e: "terms (?tree ! a) ! ?n =
      make_term score_thresh score_min (spec_strip_suffix doc_name, ?s)"
    using pos by (simp add: a(3))
  have f: "term_file (terms (?tree ! a) ! ?n) = spec_strip_suffix doc_name"
    unfolding e by (simp add: make_term_def)
  have d: "distinct (map termid ?tree)"
    by (simp only: build_tree_termids collect_keys_distinct)
  from al a(2) n f e have "\<exists>a<length ?tree. termid (?tree ! a) = ?k \<and>
      ?n < length (terms (?tree ! a)) \<and>
      term_file (terms (?tree ! a) ! ?n) = spec_strip_suffix doc_name \<and>
      terms (?tree ! a) ! ?n =
        make_term score_thresh score_min (spec_strip_suffix doc_name, ?s)"
    by blast
  with cp d show ?thesis by (intro conjI)
qed

text \<open>
  C7, as amended. Take the result that arrives at position \<open>p\<close> of the collecting loop. It
  belongs to the future with number \<open>order ! p\<close>, which was submitted for the query at
  position \<open>order ! p div length docs\<close> and the document at position
  \<open>order ! p mod length docs\<close>. When the name of that document contains \<^verbatim>\<open>.wav\<close>
  nowhere but at its end, the result carries the name without the trailing \<^verbatim>\<open>.wav\<close>,
  every other character kept, and so does its \<^verbatim>\<open>term\<close> element: the report has exactly
  one \<^verbatim>\<open>detected_termlist\<close> for the query, and its entry for this result, which stands
  after the entries of the earlier results of the same query, has that name as its file
  attribute and the score of this very pair. The names of the other documents do not
  matter.
\<close>

theorem file_attribute_strips_trailing_wav:
  fixes segmental_dtw :: "'f \<Rightarrow> 'f \<Rightarrow> rat"
  defines "completed \<equiv> \<lambda>queries docs order.
      completed_results segmental_dtw (submit_all queries docs) order"
  assumes "completion_order (length (submit_all queries docs)) order"
    and "p < length order"
    and "queries ! (order ! p div length docs) = (query, query_name)"
    and "docs ! (order ! p mod length docs) = (doc, doc_name)"
    and "\<not> occurs ''.wav'' (spec_strip_suffix doc_name)"
  shows "completed queries docs order ! p =
           (str_replace ''.wav'' '''' query_name, spec_strip_suffix doc_name,
            dmul (- 1) (segmental_dtw query doc)) \<and>
         distinct (map termid
           (build_tree (fst (collect (completed queries docs order))) score_thresh score_min)) \<and>
         (\<exists>a<length (build_tree (fst (collect (completed queries docs order)))
                      score_thresh score_min).
            termid (build_tree (fst (collect (completed queries docs order)))
                      score_thresh score_min ! a) = str_replace ''.wav'' '''' query_name \<and>
            length (filter (\<lambda>r. fst r = str_replace ''.wav'' '''' query_name)
                      (take p (completed queries docs order)))
              < length (terms (build_tree (fst (collect (completed queries docs order)))
                      score_thresh score_min ! a)) \<and>
            term_file (terms (build_tree (fst (collect (completed queries docs order)))
                      score_thresh score_min ! a)
                ! length (filter (\<lambda>r. fst r = str_replace ''.wav'' '''' query_name)
                      (take p (completed queries docs order)))) = spec_strip_suffix doc_name \<and>
            terms (build_tree (fst (collect (completed queries docs order)))
                      score_thresh score_min ! a)
                ! length (filter (\<lambda>r. fst r = str_replace ''.wav'' '''' query_name)
                      (take p (completed queries docs order))) =
              make_term score_thresh score_min
                (spec_strip_suffix doc_name, dmul (- 1) (segmental_dtw query doc)))"
proof -
  have "order ! p < length (submit_all queries docs)"
    using assms(2,3) by (rule completion_order_nth_less)
  then have "order ! p < length queries * length docs" by (simp add: length_submit_all)
  then have "0 < length docs" by (cases "length docs") simp_all
  then have j: "order ! p mod length docs < length docs" by simp
  have o: "order ! p = order ! p div length docs * length docs + order ! p mod length docs"
    by simp
  show ?thesis
    unfolding completed_def
    by (rule report_entry_of_pair[OF assms(2,3) o j assms(4,5,6)])
qed

theorem file_attribute_strips_trailing_wav_witness:
  "completion_order
     (length (submit_all [(7::nat, ''q1.wav'')] [(0::nat, ''d1.wav''), (2, ''a.wav.b.wav'')]))
     [1, 0] \<and>
   (1::nat) < length [1::nat, 0] \<and>
   [(7::nat, ''q1.wav'')] ! ([1::nat, 0] ! 1 div length [(0::nat, ''d1.wav''), (2, ''a.wav.b.wav'')]) =
     (7, ''q1.wav'') \<and>
   [(0::nat, ''d1.wav''), (2, ''a.wav.b.wav'')]
     ! ([1::nat, 0] ! 1 mod length [(0::nat, ''d1.wav''), (2, ''a.wav.b.wav'')]) = (0, ''d1.wav'') \<and>
   \<not> occurs ''.wav'' (spec_strip_suffix ''d1.wav'') \<and>
   completed_results (\<lambda>q d. 0)
     (submit_all [(7::nat, ''q1.wav'')] [(0::nat, ''d1.wav''), (2, ''a.wav.b.wav'')]) [1, 0] ! 1 =
     (''q1'', ''d1'', 0)"
proof -
  have h1: "completion_order
     (length (submit_all [(7::nat, ''q1.wav'')] [(0::nat, ''d1.wav''), (2, ''a.wav.b.wav'')]))
     [1, 0]"
    by (simp add: length_submit_all completion_order_def upt_rec)
  have h2: "(1::nat) < length [1::nat, 0]" by simp
  have h3: "[(7::nat, ''q1.wav'')]
      ! ([1::nat, 0] ! 1 div length [(0::nat, ''d1.wav''), (2, ''a.wav.b.wav'')]) = (7, ''q1.wav'')"
    by simp
  have h4: "[(0::nat, ''d1.wav''), (2, ''a.wav.b.wav'')]
      ! ([1::nat, 0] ! 1 mod length [(0::nat, ''d1.wav''), (2, ''a.wav.b.wav'')]) = (0, ''d1.wav'')"
    by simp
  have h5: "\<not> occurs ''.wav'' (spec_strip_suffix ''d1.wav'')"
    by (simp add: spec_strip_suffix_def)
  have e: "(str_replace ''.wav'' '''' ''q1.wav'', spec_strip_suffix ''d1.wav'',
      dmul (- 1) ((\<lambda>q d. 0) (7::nat) (0::nat))) = (''q1'', ''d1'', 0)"
    by (simp add: spec_strip_suffix_def dmul_def round_double_0)
  from h1 h2 h3 h4 h5
    file_attribute_strips_trailing_wav[OF h1 h2 h3 h4 h5, of "\<lambda>q d. 0",
      THEN conjunct1, unfolded e]
  show ?thesis by (intro conjI)
qed

text \<open>
  C7 as stated fails: \<^verbatim>\<open>replace\<close> removes \<^verbatim>\<open>.wav\<close> wherever it occurs, so the document
  \<^verbatim>\<open>a.wav.b.wav\<close> is reported as \<^verbatim>\<open>a.b\<close>, not as \<^verbatim>\<open>a.wav.b\<close>.
\<close>

theorem file_attribute_counterexample:
  "log_records (\<lambda>q d. 0) 1 1
     \<lparr>features = [7::nat, 0], audio_names = [''q1.wav'', ''a.wav.b.wav'']\<rparr> [0] =
   Inr [\<lparr>termid = ''q1'', term_search_time = ''1.0'', oov_term_count = ''1'',
         terms = [\<lparr>term_file = ''a.b'', term_channel = ''1'', term_tbeg = ''0.000'',
                   term_dur = ''0.00'', term_score = 0, term_decision = NO\<rparr>]\<rparr>] \<and>
   spec_strip_suffix ''a.wav.b.wav'' = ''a.wav.b'' \<and> ''a.b'' \<noteq> ''a.wav.b''"
proof -
  have s: "submit_all [(7::nat, ''q1.wav'')] [(0::nat, ''a.wav.b.wav'')] =
      [(7, 0, ''q1'', ''a.b'')]"
    by (simp add: submit_all_eq)
  have c: "completed_results (\<lambda>q d. 0) [(7::nat, 0::nat, ''q1'', ''a.b'')] [0] =
      [(''q1'', ''a.b'', 0)]"
    by (simp add: completed_results_def as_completed_def future_result_def match_def dmul_def
        round_double_0)
  have k: "collect [(''q1'', ''a.b'', 0)] = ([(''q1'', [(''a.b'', 0)])], [0])"
    by (simp add: collect_def)
  have d: "dsub 0 0 = 0" by (simp add: dsub_def round_double_0)
  have "log_records (\<lambda>q d. 0) 1 1
     \<lparr>features = [7::nat, 0], audio_names = [''q1.wav'', ''a.wav.b.wav'']\<rparr> [0] =
   Inr [\<lparr>termid = ''q1'', term_search_time = ''1.0'', oov_term_count = ''1'',
         terms = [\<lparr>term_file = ''a.b'', term_channel = ''1'', term_tbeg = ''0.000'',
                   term_dur = ''0.00'', term_score = 0, term_decision = NO\<rparr>]\<rparr>]"
    by (simp add: log_records_def match_results_def s c k threshold_single build_tree_def
        make_term_def d fmt0)
  moreover have "spec_strip_suffix ''a.wav.b.wav'' = ''a.wav.b''"
    by (simp add: spec_strip_suffix_def)
  ultimately show ?thesis by simp
qed

section \<open>Independence of the completion order\<close>

text \<open>
  C8. Two runs on the same queries and documents, with any two pools of at least one
  worker and any two completion orders, compute the same threshold and the same minimal
  score (or fail alike), file their results under the same keys, and hold the same set
  of entries under every key.
\<close>

theorem completion_order_irrelevant:
  assumes "1 \<le> workers1" and "1 \<le> workers2"
    and "completion_order (length (submit_all queries docs)) order1"
    and "completion_order (length (submit_all queries docs)) order2"
  shows "match_results segmental_dtw workers1 queries docs order1 =
           Inr (completed_results segmental_dtw (submit_all queries docs) order1) \<and>
         match_results segmental_dtw workers2 queries docs order2 =
           Inr (completed_results segmental_dtw (submit_all queries docs) order2) \<and>
         threshold (snd (collect (completed_results segmental_dtw (submit_all queries docs) order1))) =
           threshold (snd (collect (completed_results segmental_dtw (submit_all queries docs) order2))) \<and>
         fst ` set (fst (collect (completed_results segmental_dtw (submit_all queries docs) order1))) =
           fst ` set (fst (collect (completed_results segmental_dtw (submit_all queries docs) order2))) \<and>
         (\<forall>k. set (dict_get (fst (collect
                    (completed_results segmental_dtw (submit_all queries docs) order1))) k) =
              set (dict_get (fst (collect
                    (completed_results segmental_dtw (submit_all queries docs) order2))) k))"
proof -
  let ?c1 = "completed_results segmental_dtw (submit_all queries docs) order1"
  let ?c2 = "completed_results segmental_dtw (submit_all queries docs) order2"
  have m: "mset ?c1 = mset ?c2"
    by (simp only: mset_completed[OF assms(3)] mset_completed[OF assms(4)])
  have "mset (snd (collect ?c1)) = mset (snd (collect ?c2))"
    using m by (rule collect_scores_cong)
  then have t: "threshold (snd (collect ?c1)) = threshold (snd (collect ?c2))"
    by (rule threshold_mset_cong)
  have "set ?c1 = set ?c2" using m by (rule mset_eq_setD)
  then have k: "fst ` set (fst (collect ?c1)) = fst ` set (fst (collect ?c2))"
    by (simp only: collect_keys)
  have g: "mset (dict_get (fst (collect ?c1)) k) = mset (dict_get (fst (collect ?c2)) k)" for k
    using m by (rule collect_dict_get_cong)
  have g': "\<forall>k. set (dict_get (fst (collect ?c1)) k) = set (dict_get (fst (collect ?c2)) k)"
    using g by (intro allI mset_eq_setD)
  from match_results_Inr[OF assms(1)] match_results_Inr[OF assms(2)] t k g'
  show ?thesis by (intro conjI)
qed

theorem completion_order_irrelevant_witness:
  "(1::int) \<le> 1 \<and> (1::int) \<le> 4 \<and>
   completion_order (length (submit_all [(0::nat, ''q1.wav'')] [(1, ''d1.wav''), (2, ''d2.wav'')]))
     [0, 1] \<and>
   completion_order (length (submit_all [(0::nat, ''q1.wav'')] [(1, ''d1.wav''), (2, ''d2.wav'')]))
     [1, 0] \<and>
   threshold (snd (collect (completed_results (\<lambda>q d. of_nat d / 64)
       (submit_all [(0::nat, ''q1.wav'')] [(1, ''d1.wav''), (2, ''d2.wav'')]) [0, 1]))) =
     threshold (snd (collect (completed_results (\<lambda>q d. of_nat d / 64)
       (submit_all [(0::nat, ''q1.wav'')] [(1, ''d1.wav''), (2, ''d2.wav'')]) [1, 0])))"
proof -
  have h1: "(1::int) \<le> 1" and h2: "(1::int) \<le> 4" by simp_all
  have h3: "completion_order
      (length (submit_all [(0::nat, ''q1.wav'')] [(1, ''d1.wav''), (2, ''d2.wav'')])) [0, 1]"
    by (simp add: length_submit_all completion_order_def upt_rec)
  have h4: "completion_order
      (length (submit_all [(0::nat, ''q1.wav'')] [(1, ''d1.wav''), (2, ''d2.wav'')])) [1, 0]"
    by (simp add: length_submit_all completion_order_def upt_rec)
  from h1 h2 h3 h4
    completion_order_irrelevant[OF h1 h2 h3 h4, of "\<lambda>q d. of_nat d / 64",
      THEN conjunct2, THEN conjunct2, THEN conjunct1]
  show ?thesis by (intro conjI)
qed

end
